theory Spec2Isabelle
  imports Complex_Main "HOL-Library.Word"
begin

section \<open>Target parameters\<close>

text \<open>
  The driver stores samples, envelope values and the threshold as C \<open>float\<close>. The
  integer behaviour of the detector does not depend on how \<open>float\<close> rounds, so the type
  of float values \<open>'f\<close> and the float operations the source uses are parameters of the
  model: \<open>flt a b\<close> is \<open>a < b\<close>, \<open>fgt a b\<close> is \<open>a > b\<close>, \<open>fsub\<close> and \<open>fadd\<close> are
  \<open>-\<close> and \<open>+\<close>, \<open>fhalf a\<close> is \<open>a / 2\<close>, and \<open>f0_6\<close>, \<open>f0_12\<close> are the constants
  \<open>0.6\<close> and \<open>0.12\<close> converted to \<open>float\<close>. The theorems stated for a target
  \<open>tgt\<close> hold for every choice of them. The byte order decides which half of a
  32-bit array entry a \<open>memset\<close> that stops inside the entry clears.
\<close>

datatype endianness = LittleEndian | BigEndian

record 'f target =
  byte_order :: endianness
  flt :: "'f \<Rightarrow> 'f \<Rightarrow> bool"
  fgt :: "'f \<Rightarrow> 'f \<Rightarrow> bool"
  fsub :: "'f \<Rightarrow> 'f \<Rightarrow> 'f"
  fadd :: "'f \<Rightarrow> 'f \<Rightarrow> 'f"
  fhalf :: "'f \<Rightarrow> 'f"
  f0_6 :: 'f
  f0_12 :: 'f

section \<open>The detector state (HeartRate.h, \<open>pulse_sensor_t\<close>)\<close>

text \<open>
  The array \<open>uint32_t rate[10]\<close> is a function from indices to 32-bit words; the source
  only ever touches the indices 0 to 9.
\<close>

record 'f pulse_sensor_t =
  signal :: 'f
  BPM :: "8 word"
  IBI :: "32 word"
  pulse :: bool
  start_of_beat :: bool
  thresh_setting :: 'f
  amplitude :: 'f
  last_beat_time :: "64 word"
  rate :: "nat \<Rightarrow> 32 word"
  sample_counter :: "64 word"
  N :: "64 word"
  peak :: 'f
  trough :: 'f
  thresh :: 'f
  first_beat :: bool
  second_beat :: bool

datatype error = DivisionByZero

text \<open>How a block of \<open>pulse_sensor_process_sample\<close> ends: by the \<open>return\<close> statement
  of the first-beat branch, or by falling through to the next statement.\<close>

datatype 's flow = Return 's | Next 's

section \<open>Initialisation and configuration\<close>

text \<open>
  \<open>zero_leading_bytes e k w\<close>: the 32-bit object \<open>w\<close> after its first \<open>k\<close> bytes in
  memory have been set to zero.
\<close>

definition zero_leading_bytes :: "endianness \<Rightarrow> nat \<Rightarrow> 32 word \<Rightarrow> 32 word" where
  "zero_leading_bytes e k w =
     (if 4 \<le> k then 0
      else case e of
        LittleEndian \<Rightarrow> push_bit (8 * k) (drop_bit (8 * k) w)
      | BigEndian \<Rightarrow> take_bit (32 - 8 * k) w)"

text \<open>
  \<open>memset(a, 0, n)\<close> on an array of \<open>uint32_t\<close>: the count \<open>n\<close> is in bytes, entry
  \<open>i\<close> occupies the bytes \<open>4 * i\<close> to \<open>4 * i + 3\<close>, so \<open>n - 4 * i\<close> of its bytes
  (truncated subtraction) are cleared.
\<close>

definition memset_zero :: "endianness \<Rightarrow> (nat \<Rightarrow> 32 word) \<Rightarrow> nat \<Rightarrow> nat \<Rightarrow> 32 word" where
  "memset_zero e a n = (\<lambda>i. zero_leading_bytes e (n - 4 * i) (a i))"

definition reset_variables :: "'f target \<Rightarrow> 'f pulse_sensor_t \<Rightarrow> 'f pulse_sensor_t" where
  "reset_variables tgt PS =
     PS\<lparr>rate := memset_zero (byte_order tgt) (rate PS) 10,
        start_of_beat := False,
        BPM := 0,
        IBI := 750,
        pulse := False,
        sample_counter := 0,
        last_beat_time := 0,
        peak := f0_6 tgt,
        trough := f0_6 tgt,
        thresh := thresh_setting PS,
        amplitude := f0_12 tgt,
        first_beat := True,
        second_beat := False\<rparr>"

definition heart_rate_init :: "'f target \<Rightarrow> 'f pulse_sensor_t \<Rightarrow> 'f pulse_sensor_t" where
  "heart_rate_init tgt PS = reset_variables tgt PS"

definition set_threshold :: "'f pulse_sensor_t \<Rightarrow> 'f \<Rightarrow> 'f pulse_sensor_t" where
  "set_threshold PS threshold = PS\<lparr>thresh_setting := threshold, thresh := threshold\<rparr>"

section \<open>Accessors\<close>

definition get_latest_sample :: "'f pulse_sensor_t \<Rightarrow> 'f" where
  "get_latest_sample PS = signal PS"

definition get_beats_per_minute :: "'f pulse_sensor_t \<Rightarrow> 8 word" where
  "get_beats_per_minute PS = BPM PS"

definition get_inter_beat_interval :: "'f pulse_sensor_t \<Rightarrow> 32 word" where
  "get_inter_beat_interval PS = IBI PS"

text \<open>The accessor takes a pointer to the state, so the model returns the state it leaves
  behind together with the flag.\<close>

definition saw_start_of_beat :: "'f pulse_sensor_t \<Rightarrow> bool \<times> 'f pulse_sensor_t" where
  "saw_start_of_beat PS = (start_of_beat PS, PS)"

definition is_inside_beat :: "'f pulse_sensor_t \<Rightarrow> bool" where
  "is_inside_beat PS = pulse PS"

definition get_pulse_amplitude :: "'f pulse_sensor_t \<Rightarrow> 'f" where
  "get_pulse_amplitude PS = amplitude PS"

text \<open>The return type is \<open>uint32_t\<close>, the field is \<open>uint64_t\<close>: the \<open>return\<close> converts.\<close>

definition get_last_beat_time :: "'f pulse_sensor_t \<Rightarrow> 32 word" where
  "get_last_beat_time PS = ucast (last_beat_time PS)"

section \<open>Processing one sample\<close>

text \<open>Lines 134 and 135: the clock advance.\<close>

definition advance_clock :: "'f pulse_sensor_t \<Rightarrow> 32 word \<Rightarrow> 'f pulse_sensor_t" where
  "advance_clock PS ms =
     (let sc = sample_counter PS + ucast ms
      in PS\<lparr>sample_counter := sc, N := sc - last_beat_time PS\<rparr>)"

text \<open>\<open>(PS->IBI/5)*3\<close>, computed in 32 bits and widened for the comparison with \<open>N\<close>.\<close>

definition dichrotic_window :: "'f pulse_sensor_t \<Rightarrow> 64 word" where
  "dichrotic_window PS = ucast ((IBI PS div 5) * 3)"

text \<open>Lines 141 to 148.\<close>

definition track_trough :: "'f target \<Rightarrow> 'f pulse_sensor_t \<Rightarrow> 'f pulse_sensor_t" where
  "track_trough tgt PS =
     (if flt tgt (signal PS) (thresh PS) \<and> dichrotic_window PS < N PS then
        (if flt tgt (signal PS) (trough PS) then PS\<lparr>trough := signal PS\<rparr> else PS)
      else PS)"

text \<open>Lines 150 to 155.\<close>

definition track_peak :: "'f target \<Rightarrow> 'f pulse_sensor_t \<Rightarrow> 'f pulse_sensor_t" where
  "track_peak tgt PS =
     (if fgt tgt (signal PS) (thresh PS) \<and> fgt tgt (signal PS) (peak PS)
      then PS\<lparr>peak := signal PS\<rparr> else PS)"

text \<open>Lines 169 to 171: \<open>for (i = 0; i < 10; i++) rate[i] = IBI\<close>.\<close>

function seed_loop :: "nat \<Rightarrow> (nat \<Rightarrow> 32 word) \<Rightarrow> 32 word \<Rightarrow> nat \<Rightarrow> 32 word" where
  "seed_loop i r ibi = (if i < 10 then seed_loop (Suc i) (r(i := ibi)) ibi else r)"
  by pat_completeness auto
termination
  by (relation "measure (\<lambda>(i, r, ibi). 10 - i)") auto

text \<open>Lines 183 to 186: \<open>for (i = 0; i < 9; i++) { rate[i] = rate[i+1];
  running_total += rate[i]; }\<close>, on the array and the 32-bit running total.\<close>

function shift_loop ::
  "nat \<Rightarrow> (nat \<Rightarrow> 32 word) \<Rightarrow> 32 word \<Rightarrow> (nat \<Rightarrow> 32 word) \<times> 32 word" where
  "shift_loop i r running_total =
     (if i < 9 then
        (let r' = r(i := r (Suc i))
         in shift_loop (Suc i) r' (running_total + r' i))
      else (r, running_total))"
  by pat_completeness auto
termination
  by (relation "measure (\<lambda>(i, r, t). 9 - i)") auto

text \<open>Lines 181 to 190: the history shift and the local variable \<open>running_total\<close> as it
  stands when the division of line 191 is reached.\<close>

definition shift_rate :: "'f pulse_sensor_t \<Rightarrow> (nat \<Rightarrow> 32 word) \<times> 32 word" where
  "shift_rate PS =
     (let (r, total) = shift_loop 0 (rate PS) 0
      in (r(9 := IBI PS), (total + IBI PS) div 10))"

text \<open>Lines 181 to 192: the history update and the beats-per-minute computation. The
  division \<open>60000 / running_total\<close> is a 32-bit unsigned division whose quotient is
  stored into the 8-bit field; a zero divisor is the fault \<open>DivisionByZero\<close>.\<close>

definition update_bpm :: "'f pulse_sensor_t \<Rightarrow> error + 'f pulse_sensor_t" where
  "update_bpm PS =
     (let (r, running_total) = shift_rate PS
      in if running_total = 0 then Inl DivisionByZero
         else Inr (PS\<lparr>rate := r,
                      BPM := ucast ((60000 :: 32 word) div running_total),
                      start_of_beat := True\<rparr>))"

text \<open>The condition of line 159.\<close>

definition beat_edge :: "'f target \<Rightarrow> 'f pulse_sensor_t \<Rightarrow> bool" where
  "beat_edge tgt PS \<longleftrightarrow>
     fgt tgt (signal PS) (thresh PS) \<and> \<not> pulse PS \<and> dichrotic_window PS < N PS"

text \<open>Lines 160 to 172: the beat is recorded and, in the second-beat phase, the history
  is seeded.\<close>

definition register_beat :: "'f pulse_sensor_t \<Rightarrow> 'f pulse_sensor_t" where
  "register_beat PS =
     (let PS1 = PS\<lparr>pulse := True,
                   IBI := ucast (sample_counter PS - last_beat_time PS),
                   last_beat_time := sample_counter PS\<rparr>
      in if second_beat PS1
         then PS1\<lparr>second_beat := False, rate := seed_loop 0 (rate PS1) (IBI PS1)\<rparr>
         else PS1)"

text \<open>Lines 158 to 194.\<close>

definition detect_beat ::
  "'f target \<Rightarrow> 'f pulse_sensor_t \<Rightarrow> error + 'f pulse_sensor_t flow" where
  "detect_beat tgt PS =
     (if 250 < N PS then
        (if beat_edge tgt PS then
           (let PS2 = register_beat PS
            in if first_beat PS2
               then Inr (Return (PS2\<lparr>first_beat := False, second_beat := True\<rparr>))
               else (case update_bpm PS2 of
                       Inl e \<Rightarrow> Inl e
                     | Inr PS3 \<Rightarrow> Inr (Next PS3)))
         else Inr (Next PS))
      else Inr (Next PS))"

text \<open>Lines 197 to 206.\<close>

definition end_of_beat :: "'f target \<Rightarrow> 'f pulse_sensor_t \<Rightarrow> 'f pulse_sensor_t" where
  "end_of_beat tgt PS =
     (if flt tgt (signal PS) (thresh PS) \<and> pulse PS then
        (let amp = fsub tgt (peak PS) (trough PS);
             th = fadd tgt (fhalf tgt amp) (trough PS)
         in PS\<lparr>pulse := False, amplitude := amp, thresh := th, peak := th, trough := th\<rparr>)
      else PS)"

text \<open>Lines 209 to 224.\<close>

definition check_timeout :: "'f target \<Rightarrow> 'f pulse_sensor_t \<Rightarrow> 'f pulse_sensor_t" where
  "check_timeout tgt PS =
     (if 2500 < N PS then
        PS\<lparr>thresh := thresh_setting PS,
           peak := f0_6 tgt,
           trough := f0_6 tgt,
           last_beat_time := sample_counter PS,
           first_beat := True,
           second_beat := False,
           start_of_beat := False,
           BPM := 0,
           IBI := 600,
           pulse := False,
           amplitude := f0_12 tgt\<rparr>
      else PS)"

text \<open>The state when line 158 is reached: clock advanced, envelope tracked.\<close>

definition tracked :: "'f target \<Rightarrow> 'f pulse_sensor_t \<Rightarrow> 32 word \<Rightarrow> 'f pulse_sensor_t" where
  "tracked tgt PS ms = track_peak tgt (track_trough tgt (advance_clock PS ms))"

definition pulse_sensor_process_sample ::
  "'f target \<Rightarrow> 'f pulse_sensor_t \<Rightarrow> 32 word \<Rightarrow> error + 'f pulse_sensor_t" where
  "pulse_sensor_process_sample tgt PS ms =
     (case detect_beat tgt (tracked tgt PS ms) of
        Inl e \<Rightarrow> Inl e
      | Inr (Return PS') \<Rightarrow> Inr PS'
      | Inr (Next PS') \<Rightarrow> Inr (check_timeout tgt (end_of_beat tgt PS')))"

section \<open>Reachable states\<close>

text \<open>
  The caller owns the structure: it initialises it, stores each new sample in
  \<open>signal\<close>, and calls the driver. A fault ends the run.
\<close>

inductive reachable :: "'f target \<Rightarrow> 'f pulse_sensor_t \<Rightarrow> bool" for tgt :: "'f target" where
  r_init: "reachable tgt (heart_rate_init tgt PS0)"
| r_threshold: "reachable tgt PS \<Longrightarrow> reachable tgt (set_threshold PS t)"
| r_signal: "reachable tgt PS \<Longrightarrow> reachable tgt (PS\<lparr>signal := v\<rparr>)"
| r_reset: "reachable tgt PS \<Longrightarrow> reachable tgt (reset_variables tgt PS)"
| r_sample: "reachable tgt PS \<Longrightarrow> pulse_sensor_process_sample tgt PS ms = Inr PS'
             \<Longrightarrow> reachable tgt PS'"

section \<open>A concrete target and a concrete run\<close>

text \<open>A little-endian target whose float operations are exact, to run the model on
  concrete samples.\<close>

definition exact_target :: "real target" where
  "exact_target =
     \<lparr>byte_order = LittleEndian,
      flt = (\<lambda>a b. a < b), fgt = (\<lambda>a b. a > b),
      fsub = (\<lambda>a b. a - b), fadd = (\<lambda>a b. a + b), fhalf = (\<lambda>a. a / 2),
      f0_6 = 6 / 10, f0_12 = 12 / 100\<rparr>"

text \<open>A zero-filled structure whose \<open>thresh_setting\<close> the caller has set to 0.5.\<close>

definition blank :: "real pulse_sensor_t" where
  "blank =
     \<lparr>signal = 0, BPM = 0, IBI = 0, pulse = False, start_of_beat = False,
      thresh_setting = 1 / 2, amplitude = 0, last_beat_time = 0, rate = (\<lambda>i. 0),
      sample_counter = 0, N = 0, peak = 0, trough = 0, thresh = 0,
      first_beat = False, second_beat = False\<rparr>"

text \<open>The caller's loop: store the sample \<open>v\<close>, then process it with \<open>ms\<close> elapsed.\<close>

fun feed ::
  "'f target \<Rightarrow> 'f pulse_sensor_t \<Rightarrow> ('f \<times> 32 word) list \<Rightarrow> error + 'f pulse_sensor_t" where
  "feed tgt PS [] = Inr PS"
| "feed tgt PS ((v, ms) # rest) =
     (case pulse_sensor_process_sample tgt (PS\<lparr>signal := v\<rparr>) ms of
        Inl e \<Rightarrow> Inl e
      | Inr PS' \<Rightarrow> feed tgt PS' rest)"

section \<open>Closed forms and the specification's formula\<close>

text \<open>The history after the shift of lines 183 to 188: entries 1 to 9 moved down by one,
  the new interval in entry 9.\<close>

definition shifted :: "'f pulse_sensor_t \<Rightarrow> nat \<Rightarrow> 32 word" where
  "shifted PS = (\<lambda>j. if j < 9 then rate PS (Suc j) else if j = 9 then IBI PS else rate PS j)"

text \<open>The specification's formula \<open>bpm = 60000 / (sum(H) / 10)\<close> on unbounded
  naturals, each division truncating.\<close>

definition spec_bpm :: "(nat \<Rightarrow> nat) \<Rightarrow> nat" where
  "spec_bpm H = 60000 div (sum_list (map H [0..<10]) div 10)"

text \<open>What every reachable state satisfies: the two warm-up flags are never both set,
  the edge flag is clear while the first beat is awaited, and in the steady phase the
  ten stored intervals lie between 251 and 2500 milliseconds.\<close>

definition invariant :: "'f pulse_sensor_t \<Rightarrow> bool" where
  "invariant PS \<longleftrightarrow>
     \<not> (first_beat PS \<and> second_beat PS)
     \<and> (first_beat PS \<longrightarrow> \<not> start_of_beat PS)
     \<and> (\<not> first_beat PS \<and> \<not> second_beat PS \<longrightarrow>
          (\<forall>i<10. 251 \<le> unat (rate PS i) \<and> unat (rate PS i) \<le> 2500))"

text \<open>Two concrete runs from the initialised structure: one beat seen, and two beats
  800 ms apart.\<close>

definition one_beat :: "real pulse_sensor_t" where
  "one_beat =
     projr (feed exact_target (heart_rate_init exact_target blank) [(1, 500), (0, 20)])"

definition two_beats :: "real pulse_sensor_t" where
  "two_beats =
     projr (feed exact_target (heart_rate_init exact_target blank)
              [(1, 500), (0, 20), (1, 780)])"

text \<open>A run that idles past the 32-bit range of the millisecond clock: 4294967295 ms
  without a beat, then 2501 ms more.\<close>

definition seven_weeks :: "real pulse_sensor_t" where
  "seven_weeks =
     projr (feed exact_target (heart_rate_init exact_target blank)
              [(0, 4294967295), (0, 2501)])"

text \<open>The run \<open>two_beats\<close> continued by one low sample, which ends the second beat.\<close>

definition settled :: "real pulse_sensor_t" where
  "settled =
     projr (feed exact_target (heart_rate_init exact_target blank)
              [(1, 500), (0, 20), (1, 780), (0, 20)])"

section \<open>Facts about the blocks\<close>

declare seed_loop.simps [simp del] shift_loop.simps [simp del]

lemma push_drop_idem:
  "push_bit n (drop_bit n (push_bit n (drop_bit n w))) = push_bit n (drop_bit n (w :: 32 word))"
  by (rule bit_word_eqI) (auto simp: bit_simps)

lemma zero_leading_bytes_idem:
  "zero_leading_bytes e k (zero_leading_bytes e k w) = zero_leading_bytes e k w"
  by (cases e) (simp_all add: zero_leading_bytes_def push_drop_idem)

lemma zero_leading_bytes_none: "zero_leading_bytes e 0 w = w"
  by (cases e) (simp_all add: zero_leading_bytes_def take_bit_word_eq_self)

lemma advance_clock_fields:
  "signal (advance_clock PS ms) = signal PS"
  "BPM (advance_clock PS ms) = BPM PS"
  "IBI (advance_clock PS ms) = IBI PS"
  "pulse (advance_clock PS ms) = pulse PS"
  "start_of_beat (advance_clock PS ms) = start_of_beat PS"
  "thresh_setting (advance_clock PS ms) = thresh_setting PS"
  "amplitude (advance_clock PS ms) = amplitude PS"
  "last_beat_time (advance_clock PS ms) = last_beat_time PS"
  "rate (advance_clock PS ms) = rate PS"
  "sample_counter (advance_clock PS ms) = sample_counter PS + ucast ms"
  "N (advance_clock PS ms) = sample_counter PS + ucast ms - last_beat_time PS"
  "thresh (advance_clock PS ms) = thresh PS"
  "first_beat (advance_clock PS ms) = first_beat PS"
  "second_beat (advance_clock PS ms) = second_beat PS"
  by (simp_all add: advance_clock_def Let_def)

lemma track_trough_fields:
  "signal (track_trough tgt PS) = signal PS"
  "BPM (track_trough tgt PS) = BPM PS"
  "IBI (track_trough tgt PS) = IBI PS"
  "pulse (track_trough tgt PS) = pulse PS"
  "start_of_beat (track_trough tgt PS) = start_of_beat PS"
  "thresh_setting (track_trough tgt PS) = thresh_setting PS"
  "amplitude (track_trough tgt PS) = amplitude PS"
  "last_beat_time (track_trough tgt PS) = last_beat_time PS"
  "rate (track_trough tgt PS) = rate PS"
  "sample_counter (track_trough tgt PS) = sample_counter PS"
  "N (track_trough tgt PS) = N PS"
  "thresh (track_trough tgt PS) = thresh PS"
  "first_beat (track_trough tgt PS) = first_beat PS"
  "second_beat (track_trough tgt PS) = second_beat PS"
  by (simp_all add: track_trough_def)

lemma track_peak_fields:
  "signal (track_peak tgt PS) = signal PS"
  "BPM (track_peak tgt PS) = BPM PS"
  "IBI (track_peak tgt PS) = IBI PS"
  "pulse (track_peak tgt PS) = pulse PS"
  "start_of_beat (track_peak tgt PS) = start_of_beat PS"
  "thresh_setting (track_peak tgt PS) = thresh_setting PS"
  "amplitude (track_peak tgt PS) = amplitude PS"
  "last_beat_time (track_peak tgt PS) = last_beat_time PS"
  "rate (track_peak tgt PS) = rate PS"
  "sample_counter (track_peak tgt PS) = sample_counter PS"
  "N (track_peak tgt PS) = N PS"
  "thresh (track_peak tgt PS) = thresh PS"
  "first_beat (track_peak tgt PS) = first_beat PS"
  "second_beat (track_peak tgt PS) = second_beat PS"
  by (simp_all add: track_peak_def)

lemma tracked_fields:
  "signal (tracked tgt PS ms) = signal PS"
  "BPM (tracked tgt PS ms) = BPM PS"
  "IBI (tracked tgt PS ms) = IBI PS"
  "pulse (tracked tgt PS ms) = pulse PS"
  "start_of_beat (tracked tgt PS ms) = start_of_beat PS"
  "thresh_setting (tracked tgt PS ms) = thresh_setting PS"
  "amplitude (tracked tgt PS ms) = amplitude PS"
  "last_beat_time (tracked tgt PS ms) = last_beat_time PS"
  "rate (tracked tgt PS ms) = rate PS"
  "sample_counter (tracked tgt PS ms) = sample_counter PS + ucast ms"
  "N (tracked tgt PS ms) = sample_counter PS + ucast ms - last_beat_time PS"
  "thresh (tracked tgt PS ms) = thresh PS"
  "first_beat (tracked tgt PS ms) = first_beat PS"
  "second_beat (tracked tgt PS ms) = second_beat PS"
  by (simp_all only: tracked_def track_peak_fields track_trough_fields advance_clock_fields)

lemma end_of_beat_fields:
  "signal (end_of_beat tgt PS) = signal PS"
  "BPM (end_of_beat tgt PS) = BPM PS"
  "IBI (end_of_beat tgt PS) = IBI PS"
  "start_of_beat (end_of_beat tgt PS) = start_of_beat PS"
  "thresh_setting (end_of_beat tgt PS) = thresh_setting PS"
  "last_beat_time (end_of_beat tgt PS) = last_beat_time PS"
  "rate (end_of_beat tgt PS) = rate PS"
  "sample_counter (end_of_beat tgt PS) = sample_counter PS"
  "N (end_of_beat tgt PS) = N PS"
  "first_beat (end_of_beat tgt PS) = first_beat PS"
  "second_beat (end_of_beat tgt PS) = second_beat PS"
  by (simp_all add: end_of_beat_def Let_def)

lemma end_of_beat_pulse: "pulse (end_of_beat tgt PS) \<Longrightarrow> pulse PS"
  by (simp add: end_of_beat_def Let_def split: if_splits)

lemma check_timeout_frame:
  "signal (check_timeout tgt PS) = signal PS"
  "thresh_setting (check_timeout tgt PS) = thresh_setting PS"
  "rate (check_timeout tgt PS) = rate PS"
  "sample_counter (check_timeout tgt PS) = sample_counter PS"
  "N (check_timeout tgt PS) = N PS"
  by (simp_all add: check_timeout_def)


lemma check_timeout_fresh: "\<not> 2500 < N PS \<Longrightarrow> check_timeout tgt PS = PS"
  by (simp add: check_timeout_def)

lemma register_beat_fields:
  "signal (register_beat PS) = signal PS"
  "BPM (register_beat PS) = BPM PS"
  "IBI (register_beat PS) = ucast (sample_counter PS - last_beat_time PS)"
  "pulse (register_beat PS) = True"
  "start_of_beat (register_beat PS) = start_of_beat PS"
  "thresh_setting (register_beat PS) = thresh_setting PS"
  "amplitude (register_beat PS) = amplitude PS"
  "last_beat_time (register_beat PS) = sample_counter PS"
  "sample_counter (register_beat PS) = sample_counter PS"
  "N (register_beat PS) = N PS"
  "peak (register_beat PS) = peak PS"
  "trough (register_beat PS) = trough PS"
  "thresh (register_beat PS) = thresh PS"
  "first_beat (register_beat PS) = first_beat PS"
  "second_beat (register_beat PS) = False"
  by (simp_all add: register_beat_def Let_def)

lemma seed_loop_from:
  "seed_loop i r ibi = (\<lambda>j. if i \<le> j \<and> j < 10 then ibi else r j)"
proof (induction i r ibi rule: seed_loop.induct)
  case (1 i r ibi)
  show ?case
  proof (cases "i < 10")
    case True
    have "seed_loop i r ibi = seed_loop (Suc i) (r(i := ibi)) ibi"
      using True by (subst seed_loop.simps) simp
    also have "\<dots> = (\<lambda>j. if Suc i \<le> j \<and> j < 10 then ibi else (r(i := ibi)) j)"
      by (rule "1.IH" [OF True])
    also have "\<dots> = (\<lambda>j. if i \<le> j \<and> j < 10 then ibi else r j)"
      using True by (auto simp: fun_eq_iff)
    finally show ?thesis .
  next
    case False
    then show ?thesis by (subst seed_loop.simps) (auto simp: fun_eq_iff)
  qed
qed

lemma seed_loop_0: "seed_loop 0 r ibi = (\<lambda>j. if j < 10 then ibi else r j)"
  by (simp add: seed_loop_from)

lemma shift_loop_from:
  "shift_loop i r t =
     ((\<lambda>j. if i \<le> j \<and> j < 9 then r (Suc j) else r j),
      t + sum_list (map (\<lambda>j. r (Suc j)) [i..<9]))"
proof (induction i r t rule: shift_loop.induct)
  case (1 i r t)
  show ?case
  proof (cases "i < 9")
    case True
    let ?r = "r(i := r (Suc i))"
    have "shift_loop i r t = shift_loop (Suc i) ?r (t + ?r i)"
      using True by (subst shift_loop.simps) (simp add: Let_def)
    also have "\<dots> = ((\<lambda>j. if Suc i \<le> j \<and> j < 9 then ?r (Suc j) else ?r j),
                        (t + ?r i) + sum_list (map (\<lambda>j. ?r (Suc j)) [Suc i..<9]))"
      by (rule "1.IH" [OF True refl])
    also have "\<dots> = ((\<lambda>j. if i \<le> j \<and> j < 9 then r (Suc j) else r j),
                        t + sum_list (map (\<lambda>j. r (Suc j)) [i..<9]))"
    proof -
      have m: "map (\<lambda>j. ?r (Suc j)) [Suc i..<9] = map (\<lambda>j. r (Suc j)) [Suc i..<9]"
        by (rule map_cong) auto
      have u: "[i..<9] = i # [Suc i..<9]"
        using True by (rule upt_conv_Cons)
      have "(t + ?r i) + sum_list (map (\<lambda>j. ?r (Suc j)) [Suc i..<9])
                       = t + sum_list (map (\<lambda>j. r (Suc j)) [i..<9])"
        by (simp only: u m list.map sum_list.Cons fun_upd_same add.assoc)
      moreover have "(\<lambda>j. if Suc i \<le> j \<and> j < 9 then ?r (Suc j) else ?r j)
                     = (\<lambda>j. if i \<le> j \<and> j < 9 then r (Suc j) else r j)"
        using True by (auto simp: fun_eq_iff)
      ultimately show ?thesis by (simp only:)
    qed
    finally show ?thesis .
  next
    case False
    then show ?thesis by (subst shift_loop.simps) (auto simp: fun_eq_iff)
  qed
qed

lemma upt_10: "[0..<10] = [0..<9] @ [9]"
  using upt_Suc_append [of 0 9] by simp

lemma shift_rate_eq:
  "shift_rate PS = (shifted PS, sum_list (map (shifted PS) [0..<10]) div 10)"
proof -
  have m: "map (shifted PS) [0..<9] = map (\<lambda>j. rate PS (Suc j)) [0..<9]"
    by (rule map_cong) (auto simp: shifted_def)
  have "sum_list (map (shifted PS) [0..<10]) =
        sum_list (map (\<lambda>j. rate PS (Suc j)) [0..<9]) + IBI PS"
    unfolding upt_10 by (simp add: m) (simp add: shifted_def)
  moreover have "(fst (shift_loop 0 (rate PS) 0))(9 := IBI PS) = shifted PS"
    by (auto simp: shift_loop_from shifted_def fun_eq_iff)
  ultimately show ?thesis
    by (simp add: shift_rate_def shift_loop_from split_def)
qed

lemma unat_sum_list:
  "unat (sum_list ws :: 32 word) = sum_list (map unat ws) mod 2 ^ 32"
proof (induction ws)
  case Nil
  then show ?case by simp
next
  case (Cons w ws)
  then show ?case by (simp add: unat_word_ariths mod_add_right_eq)
qed

lemma sum_list_bounds:
  assumes "\<forall>x \<in> set xs. lo \<le> f x \<and> f x \<le> (hi::nat)"
  shows "length xs * lo \<le> sum_list (map f xs) \<and> sum_list (map f xs) \<le> length xs * hi"
  using assms
proof (induction xs)
  case Nil
  then show ?case by simp
next
  case (Cons x xs)
  then have "lo \<le> f x" "f x \<le> hi" 
    "length xs * lo \<le> sum_list (map f xs)" "sum_list (map f xs) \<le> length xs * hi"
    by auto
  then show ?case by simp
qed

lemma running_total_bounds:
  assumes "\<forall>i<10. lo \<le> unat (H i) \<and> unat (H i) \<le> hi" and "10 * hi < 2 ^ 32"
  shows "lo \<le> unat (sum_list (map H [0..<10]) div 10 :: 32 word)"
    and "unat (sum_list (map H [0..<10]) div 10 :: 32 word) \<le> hi"
    and "unat (sum_list (map H [0..<10]) div 10 :: 32 word)
          = sum_list (map (\<lambda>i. unat (H i)) [0..<10]) div 10"
proof -
  let ?S = "sum_list (map (\<lambda>i. unat (H i)) [0..<10])"
  have b: "length [0..<10::nat] * lo \<le> ?S \<and> ?S \<le> length [0..<10::nat] * hi"
    by (rule sum_list_bounds) (use assms(1) in auto)
  then have lohi: "10 * lo \<le> ?S" "?S \<le> 10 * hi" by simp_all
  have "unat (sum_list (map H [0..<10])) = ?S mod 2 ^ 32"
    by (simp only: unat_sum_list map_map o_def)
  also have "\<dots> = ?S" using lohi assms(2) by simp
  finally have u: "unat (sum_list (map H [0..<10])) = ?S" .
  show e: "unat (sum_list (map H [0..<10]) div 10 :: 32 word) = ?S div 10"
    by (simp add: unat_div u)
  show "lo \<le> unat (sum_list (map H [0..<10]) div 10 :: 32 word)"
    unfolding e using lohi by simp
  show "unat (sum_list (map H [0..<10]) div 10 :: 32 word) \<le> hi"
    unfolding e using lohi by simp
qed

lemma update_bpm_eq:
  "update_bpm PS =
     (if sum_list (map (shifted PS) [0..<10]) div 10 = 0 then Inl DivisionByZero
      else Inr (PS\<lparr>rate := shifted PS,
                   BPM := ucast ((60000 :: 32 word) div (sum_list (map (shifted PS) [0..<10]) div 10)),
                   start_of_beat := True\<rparr>))"
  by (simp add: update_bpm_def shift_rate_eq)

lemma sample_quiet:
  assumes "\<not> (250 < N (tracked tgt PS ms) \<and> beat_edge tgt (tracked tgt PS ms))"
  shows "pulse_sensor_process_sample tgt PS ms =
           Inr (check_timeout tgt (end_of_beat tgt (tracked tgt PS ms)))"
  using assms by (auto simp: pulse_sensor_process_sample_def detect_beat_def)

lemma sample_first_beat:
  assumes "250 < N (tracked tgt PS ms)" and "beat_edge tgt (tracked tgt PS ms)"
    and "first_beat PS"
  shows "pulse_sensor_process_sample tgt PS ms =
           Inr ((register_beat (tracked tgt PS ms))\<lparr>first_beat := False, second_beat := True\<rparr>)"
  using assms
  by (simp add: pulse_sensor_process_sample_def detect_beat_def Let_def
      register_beat_fields tracked_fields)

lemma sample_update:
  assumes "250 < N (tracked tgt PS ms)" and "beat_edge tgt (tracked tgt PS ms)"
    and "\<not> first_beat PS"
  shows "pulse_sensor_process_sample tgt PS ms =
           (case update_bpm (register_beat (tracked tgt PS ms)) of
              Inl e \<Rightarrow> Inl e
            | Inr PS3 \<Rightarrow> Inr (check_timeout tgt (end_of_beat tgt PS3)))"
  using assms
  by (simp add: pulse_sensor_process_sample_def detect_beat_def Let_def
      register_beat_fields tracked_fields split: sum.splits)

lemma register_beat_rate:
  "rate (register_beat PS) =
     (if second_beat PS
      then (\<lambda>j. if j < 10 then ucast (sample_counter PS - last_beat_time PS) else rate PS j)
      else rate PS)"
  by (simp add: register_beat_def Let_def seed_loop_0)

lemma check_timeout_start_of_beat:
  "start_of_beat (check_timeout tgt PS) = (start_of_beat PS \<and> \<not> 2500 < N PS)"
  by (simp add: check_timeout_def)

lemma unat_interval:
  fixes n :: "64 word"
  assumes "250 < n" and "unat n < 2 ^ 32"
  shows "unat (ucast n :: 32 word) = unat n" and "250 < unat n"
proof -
  show "unat (ucast n :: 32 word) = unat n"
    using assms(2) by (simp add: unsigned_ucast_eq take_bit_nat_eq_self)
  show "250 < unat n"
    using assms(1) by (simp add: word_less_nat_alt)
qed

lemma not_stale: "\<not> 2500 < (n :: 64 word) \<Longrightarrow> unat n \<le> 2500"
  by (simp add: word_less_nat_alt)

lemma check_timeout_phase:
  "first_beat (check_timeout tgt PS) = (2500 < N PS \<or> first_beat PS)"
  "second_beat (check_timeout tgt PS) = (\<not> 2500 < N PS \<and> second_beat PS)"
  by (simp_all add: check_timeout_def)

lemma invariant_reset: "invariant (reset_variables tgt PS)"
  by (simp add: invariant_def reset_variables_def)

lemma invariant_set_threshold: "invariant PS \<Longrightarrow> invariant (set_threshold PS t)"
  by (simp add: invariant_def set_threshold_def)

lemma invariant_signal: "invariant PS \<Longrightarrow> invariant (PS\<lparr>signal := v\<rparr>)"
  by (simp add: invariant_def)

lemma shifted_register_bounds:
  assumes inv: "invariant PS" and nf: "\<not> first_beat PS"
    and n: "250 < N (tracked tgt PS ms)" and hi: "unat (N (tracked tgt PS ms)) \<le> hi"
    and hi2: "2500 \<le> hi" "hi < 2 ^ 32"
  shows "\<forall>i<10. 251 \<le> unat (shifted (register_beat (tracked tgt PS ms)) i)
               \<and> unat (shifted (register_beat (tracked tgt PS ms)) i) \<le> hi"
proof -
  let ?T = "tracked tgt PS ms"
  let ?ibi = "ucast (sample_counter ?T - last_beat_time ?T) :: 32 word"
  have nT: "sample_counter ?T - last_beat_time ?T = N ?T"
    by (simp add: tracked_fields)
  have "unat (N ?T) < 2 ^ 32" using hi hi2 by simp
  from unat_interval [OF n this] have ibi: "251 \<le> unat ?ibi" "unat ?ibi \<le> hi"
    using hi by (simp_all add: nT)
  show ?thesis
  proof (cases "second_beat PS")
    case True
    then show ?thesis
      using ibi by (simp add: shifted_def register_beat_rate register_beat_fields tracked_fields)
  next
    case False
    with inv nf have old: "\<forall>i<10. 251 \<le> unat (rate PS i) \<and> unat (rate PS i) \<le> 2500"
      by (simp add: invariant_def)
    show ?thesis
    proof (intro allI impI)
      fix i :: nat assume i: "i < 10"
      show "251 \<le> unat (shifted (register_beat ?T) i) \<and> unat (shifted (register_beat ?T) i) \<le> hi"
      proof (cases "i < 9")
        case True
        then have "Suc i < 10" by simp
        with old have "251 \<le> unat (rate PS (Suc i)) \<and> unat (rate PS (Suc i)) \<le> 2500" by blast
        then show ?thesis
          using True False hi2
          by (simp add: shifted_def register_beat_rate tracked_fields)
      next
        case False
        with i have "i = 9" by simp
        then show ?thesis
          using ibi by (simp add: shifted_def register_beat_fields)
      qed
    qed
  qed
qed

lemma invariant_sample:
  assumes inv: "invariant PS" and r: "pulse_sensor_process_sample tgt PS ms = Inr PS'"
  shows "invariant PS'"
proof -
  let ?T = "tracked tgt PS ms"
  show ?thesis
  proof (cases "250 < N ?T \<and> beat_edge tgt ?T")
    case False
    then have p: "PS' = check_timeout tgt (end_of_beat tgt ?T)"
      using r by (simp add: sample_quiet)
    show ?thesis
      using inv unfolding p invariant_def
      by (auto simp: check_timeout_phase check_timeout_start_of_beat check_timeout_frame
          end_of_beat_fields tracked_fields)
  next
    case edge: True
    show ?thesis
    proof (cases "first_beat PS")
      case True
      with edge r
      have "PS' = (register_beat ?T)\<lparr>first_beat := False, second_beat := True\<rparr>"
        by (simp add: sample_first_beat)
      then show ?thesis by (simp add: invariant_def)
    next
      case False
      with edge r obtain PS3 where u: "update_bpm (register_beat ?T) = Inr PS3"
        and p: "PS' = check_timeout tgt (end_of_beat tgt PS3)"
        by (auto simp: sample_update split: sum.splits)
      from u have f3: "first_beat PS3 = False" "second_beat PS3 = False" "N PS3 = N ?T"
        "rate PS3 = shifted (register_beat ?T)"
        using False
        by (auto simp: update_bpm_eq register_beat_fields tracked_fields split: if_splits)
      show ?thesis
      proof (cases "2500 < N ?T")
        case True
        then show ?thesis 
          unfolding p invariant_def
          by (simp add: check_timeout_phase check_timeout_start_of_beat check_timeout_frame
              end_of_beat_fields f3)
      next
        case fresh: False
        then have "unat (N ?T) \<le> 2500" by (rule not_stale)
        with inv False edge
        have "\<forall>i<10. 251 \<le> unat (shifted (register_beat ?T) i)
               \<and> unat (shifted (register_beat ?T) i) \<le> 2500"
          by (intro shifted_register_bounds) simp_all
        then show ?thesis 
          using fresh unfolding p invariant_def
          by (simp add: check_timeout_phase check_timeout_start_of_beat check_timeout_frame
              end_of_beat_fields f3)
      qed
    qed
  qed
qed

lemma reachable_invariant: "reachable tgt PS \<Longrightarrow> invariant PS"
proof (induction rule: reachable.induct)
  case (r_init PS0)
  show ?case by (simp add: heart_rate_init_def invariant_reset)
next
  case (r_threshold PS t)
  then show ?case by (simp add: invariant_set_threshold)
next
  case (r_signal PS v)
  then show ?case by (simp add: invariant_signal)
next
  case (r_reset PS)
  show ?case by (rule invariant_reset)
next
  case (r_sample PS ms PS')
  then show ?case by (blast intro: invariant_sample)
qed

lemma tracked_N: "N (tracked tgt PS ms) = N (advance_clock PS ms)"
  by (simp add: tracked_fields advance_clock_fields)

lemma tracked_window: "dichrotic_window (tracked tgt PS ms) = dichrotic_window PS"
  by (simp add: dichrotic_window_def tracked_fields)

lemma check_timeout_beat:
  "pulse (check_timeout tgt PS) = (pulse PS \<and> \<not> 2500 < N PS)"
  "IBI (check_timeout tgt PS) = (if 2500 < N PS then 600 else IBI PS)"
  "last_beat_time (check_timeout tgt PS)
     = (if 2500 < N PS then sample_counter PS else last_beat_time PS)"
  "BPM (check_timeout tgt PS) = (if 2500 < N PS then 0 else BPM PS)"
  by (simp_all add: check_timeout_def)

lemma unat_bpm_cast:
  fixes rt :: "32 word"
  shows "unat (ucast ((60000 :: 32 word) div rt) :: 8 word) = (60000 div unat rt) mod 256"
  by (simp add: unsigned_ucast_eq unat_div take_bit_eq_mod)

lemma bpm_fits: "235 \<le> (d::nat) \<Longrightarrow> 60000 div d < 256"
proof -
  assume "235 \<le> d"
  then have "60000 div d \<le> 60000 div 235" by (intro div_le_mono2) simp_all
  then show ?thesis by simp
qed

lemma update_bpm_fields:
  assumes "update_bpm PS = Inr PS3"
  shows "rate PS3 = shifted PS"
    and "BPM PS3 = ucast ((60000 :: 32 word) div snd (shift_rate PS))"
    and "start_of_beat PS3" and "N PS3 = N PS" and "IBI PS3 = IBI PS"
    and "first_beat PS3 = first_beat PS" and "second_beat PS3 = second_beat PS"
    and "last_beat_time PS3 = last_beat_time PS" and "sample_counter PS3 = sample_counter PS"
    and "pulse PS3 = pulse PS" and "snd (shift_rate PS) \<noteq> 0"
  using assms
  by (auto simp: update_bpm_def shift_rate_eq Let_def split: if_splits)

lemma update_bpm_returns:
  "snd (shift_rate PS) \<noteq> 0 \<Longrightarrow> \<exists>PS3. update_bpm PS = Inr PS3"
  by (simp add: update_bpm_def split_def Let_def)

section \<open>Concrete runs\<close>

lemma feed_reachable:
  "reachable tgt PS \<Longrightarrow> feed tgt PS xs = Inr PS' \<Longrightarrow> reachable tgt PS'"
proof (induction xs arbitrary: PS)
  case Nil
  then show ?case by simp
next
  case (Cons x xs)
  obtain v ms where x: "x = (v, ms)" by (cases x)
  from Cons.prems(2) obtain PS1 where
    s: "pulse_sensor_process_sample tgt (PS\<lparr>signal := v\<rparr>) ms = Inr PS1"
    and f: "feed tgt PS1 xs = Inr PS'"
    by (auto simp: x split: sum.splits)
  have "reachable tgt (PS\<lparr>signal := v\<rparr>)" using Cons.prems(1) by (rule r_signal)
  then have "reachable tgt PS1" using s by (rule r_sample)
  then show ?case using f by (rule Cons.IH)
qed

lemma two_beats_run:
  "feed exact_target (heart_rate_init exact_target blank) [(1, 500), (0, 20), (1, 780)]
     = Inr two_beats"
proof -
  have "\<not> isl (feed exact_target (heart_rate_init exact_target blank)
                  [(1, 500), (0, 20), (1, 780)])"
    by code_simp
  then show ?thesis by (simp add: two_beats_def)
qed

lemma one_beat_run:
  "feed exact_target (heart_rate_init exact_target blank) [(1, 500), (0, 20)] = Inr one_beat"
proof -
  have "\<not> isl (feed exact_target (heart_rate_init exact_target blank) [(1, 500), (0, 20)])"
    by code_simp
  then show ?thesis by (simp add: one_beat_def)
qed

lemma one_beat_reachable: "reachable exact_target one_beat"
  using r_init one_beat_run by (rule feed_reachable)

lemma settled_run:
  "feed exact_target (heart_rate_init exact_target blank)
     [(1, 500), (0, 20), (1, 780), (0, 20)] = Inr settled"
proof -
  have "\<not> isl (feed exact_target (heart_rate_init exact_target blank)
                  [(1, 500), (0, 20), (1, 780), (0, 20)])"
    by code_simp
  then show ?thesis by (simp add: settled_def)
qed

lemma settled_reachable: "reachable exact_target settled"
  using r_init settled_run by (rule feed_reachable)

lemma the_error: "(e :: error) = DivisionByZero"
  by (cases e) simp

lemma isl_error: "isl (r :: error + 'a) \<Longrightarrow> r = Inl DivisionByZero"
  by (cases r) (simp_all add: the_error)

section \<open>Reset and initialisation\<close>

text \<open>
  C1. After \<open>heart_rate_init\<close> or \<open>reset_variables\<close> all ten history entries are meant
  to be 0. The \<open>memset\<close> clears 10 bytes, not 10 entries: after two beats 800 ms apart
  the history holds 800 in every entry; a reset clears entry 0, and the entries 3 and 9
  still hold 800 after a reset, entry 9 also after an initialisation.
\<close>

theorem reset_variables_leaves_history:
  "rate two_beats 9 = 800
   \<and> rate (reset_variables exact_target two_beats) 0 = 0
   \<and> rate (reset_variables exact_target two_beats) 3 = 800
   \<and> rate (reset_variables exact_target two_beats) 9 = 800
   \<and> rate (heart_rate_init exact_target two_beats) 9 = 800"
  by code_simp

text \<open>On every target and in every state, a reset leaves the entries 3 to 9 as they
  were.\<close>

lemma reset_variables_rate_tail: "3 \<le> i \<Longrightarrow> rate (reset_variables tgt PS) i = rate PS i"
  by (simp add: reset_variables_def memset_zero_def zero_leading_bytes_none)

text \<open>
  C10. Resetting twice in a row gives the same state as resetting once, from every state
  and on every target.
\<close>

theorem reset_variables_idempotent:
  "reset_variables tgt (reset_variables tgt PS) = reset_variables tgt PS"
  by (simp add: reset_variables_def memset_zero_def zero_leading_bytes_idem)

section \<open>Accessors\<close>

text \<open>
  C8. \<open>get_last_beat_time\<close> is meant to return the stored \<open>last_beat_time\<close>. Its return
  type is 32 bits wide and the field 64: after the run \<open>seven_weeks\<close> the field holds
  4294969796 and the accessor returns 2500.
\<close>

theorem get_last_beat_time_truncates:
  "last_beat_time seven_weeks = 4294969796 \<and> get_last_beat_time seven_weeks = 2500"
  by code_simp

text \<open>
  C9. \<open>saw_start_of_beat\<close> returns the flag and leaves the whole state as it was; it does
  not clear the flag. \<open>set_threshold\<close> keeps the flag, and a call of
  \<open>pulse_sensor_process_sample\<close> that finds the flag set and leaves it clear has taken
  the timeout path: its time since the last beat exceeds 2500 ms.
\<close>

theorem saw_start_of_beat_pure:
  "saw_start_of_beat PS = (start_of_beat PS, PS)
   \<and> start_of_beat (set_threshold PS t) = start_of_beat PS
   \<and> (\<forall>PS'. pulse_sensor_process_sample tgt PS ms = Inr PS' \<and> start_of_beat PS
         \<and> \<not> start_of_beat PS' \<longrightarrow> 2500 < N (advance_clock PS ms))"
proof -
  let ?T = "tracked tgt PS ms"
  have n: "N ?T = N (advance_clock PS ms)"
    by (simp add: tracked_fields advance_clock_fields)
  have "2500 < N ?T"
    if r: "pulse_sensor_process_sample tgt PS ms = Inr PS'"
      and s: "start_of_beat PS" and s': "\<not> start_of_beat PS'" for PS'
  proof (cases "250 < N ?T \<and> beat_edge tgt ?T")
    case False
    then have "PS' = check_timeout tgt (end_of_beat tgt ?T)"
      using r by (simp add: sample_quiet)
    then show ?thesis
      using s s'
      by (simp add: check_timeout_start_of_beat check_timeout_frame end_of_beat_fields
          tracked_fields del: not_less)
  next
    case True
    show ?thesis
    proof (cases "first_beat PS")
      case True
      with \<open>250 < N ?T \<and> beat_edge tgt ?T\<close> r
      have "PS' = (register_beat ?T)\<lparr>first_beat := False, second_beat := True\<rparr>"
        by (simp add: sample_first_beat)
      then have "start_of_beat PS'" using s by (simp add: register_beat_fields tracked_fields)
      with s' show ?thesis by simp
    next
      case False
      with True r obtain PS3 where u: "update_bpm (register_beat ?T) = Inr PS3"
        and p: "PS' = check_timeout tgt (end_of_beat tgt PS3)"
        by (auto simp: sample_update split: sum.splits)
      from u have "start_of_beat PS3" "N PS3 = N ?T"
        by (auto simp: update_bpm_eq register_beat_fields split: if_splits)
      with p s' show ?thesis
        by (simp add: check_timeout_start_of_beat check_timeout_frame end_of_beat_fields)
    qed
  qed
  then show ?thesis
    unfolding n by (auto simp: saw_start_of_beat_def set_threshold_def)
qed

theorem saw_start_of_beat_pure_witness:
  "start_of_beat (two_beats\<lparr>signal := 0\<rparr>)
   \<and> pulse_sensor_process_sample exact_target (two_beats\<lparr>signal := 0\<rparr>) 3000
       = Inr (projr (pulse_sensor_process_sample exact_target (two_beats\<lparr>signal := 0\<rparr>) 3000))
   \<and> \<not> start_of_beat
         (projr (pulse_sensor_process_sample exact_target (two_beats\<lparr>signal := 0\<rparr>) 3000))
   \<and> 2500 < N (advance_clock (two_beats\<lparr>signal := 0\<rparr>) 3000)"
proof -
  let ?PS = "two_beats\<lparr>signal := 0\<rparr>"
  let ?R = "pulse_sensor_process_sample exact_target ?PS 3000"
  have h1: "start_of_beat ?PS" by code_simp
  have "\<not> isl ?R" by code_simp
  then have h2: "?R = Inr (projr ?R)" by simp
  have h3: "\<not> start_of_beat (projr ?R)" by code_simp
  from saw_start_of_beat_pure [where PS = ?PS and tgt = exact_target and ms = 3000]
    h1 h2 h3
  have "2500 < N (advance_clock ?PS 3000)" by blast
  with h1 h2 h3 show ?thesis by blast
qed

section \<open>Beat detection\<close>

text \<open>
  C6. When, after the clock advance, the time since the last beat is at most 250 ms or at
  most \<open>(IBI / 5) * 3\<close>, the beat-edge block does nothing: the call returns, it does
  not set \<open>pulse\<close>, and \<open>IBI\<close> and \<open>last_beat_time\<close> keep their values unless the
  timeout block of the same call (time since the last beat above 2500 ms) resets them.
  This holds for every state, reachable or not.
\<close>

theorem noise_floors_respected:
  assumes "N (advance_clock PS ms) \<le> 250 \<or> N (advance_clock PS ms) \<le> dichrotic_window PS"
  shows "detect_beat tgt (tracked tgt PS ms) = Inr (Next (tracked tgt PS ms))
     \<and> (\<exists>PS'. pulse_sensor_process_sample tgt PS ms = Inr PS'
            \<and> (pulse PS' \<longrightarrow> pulse PS)
            \<and> (if 2500 < N (advance_clock PS ms)
                then IBI PS' = 600 \<and> last_beat_time PS' = sample_counter PS'
                else IBI PS' = IBI PS \<and> last_beat_time PS' = last_beat_time PS))"
proof -
  let ?T = "tracked tgt PS ms"
  from assms have q: "\<not> (250 < N ?T \<and> beat_edge tgt ?T)"
    by (auto simp: beat_edge_def tracked_N tracked_window)
  then have d: "detect_beat tgt ?T = Inr (Next ?T)"
    by (auto simp: detect_beat_def)
  let ?P = "check_timeout tgt (end_of_beat tgt ?T)"
  have r: "pulse_sensor_process_sample tgt PS ms = Inr ?P"
    using q by (rule sample_quiet)
  have "pulse ?P \<longrightarrow> pulse PS"
    using end_of_beat_pulse [of tgt ?T]
    by (auto simp: check_timeout_beat tracked_fields)
  moreover have "if 2500 < N (advance_clock PS ms)
                then IBI ?P = 600 \<and> last_beat_time ?P = sample_counter ?P
                else IBI ?P = IBI PS \<and> last_beat_time ?P = last_beat_time PS"
    by (simp add: check_timeout_beat check_timeout_frame end_of_beat_fields tracked_N
        tracked_fields)
  ultimately show ?thesis using d r by blast
qed

theorem noise_floors_respected_witness:
  "N (advance_clock (one_beat\<lparr>signal := 1\<rparr>) 100) \<le> 250
   \<and> detect_beat exact_target (tracked exact_target (one_beat\<lparr>signal := 1\<rparr>) 100)
       = Inr (Next (tracked exact_target (one_beat\<lparr>signal := 1\<rparr>) 100))
   \<and> \<not> pulse (projr (pulse_sensor_process_sample exact_target (one_beat\<lparr>signal := 1\<rparr>) 100))
   \<and> IBI (projr (pulse_sensor_process_sample exact_target (one_beat\<lparr>signal := 1\<rparr>) 100)) = 500
   \<and> last_beat_time
        (projr (pulse_sensor_process_sample exact_target (one_beat\<lparr>signal := 1\<rparr>) 100)) = 500"
proof -
  let ?W = "one_beat\<lparr>signal := 1\<rparr>"
  have h: "N (advance_clock ?W 100) \<le> 250" by code_simp
  then have h': "N (advance_clock ?W 100) \<le> 250
      \<or> N (advance_clock ?W 100) \<le> dichrotic_window ?W" ..
  have w: "\<not> pulse ?W" "IBI ?W = 500" "last_beat_time ?W = 500"
    "\<not> 2500 < N (advance_clock ?W 100)"
    by code_simp+
  from noise_floors_respected [OF h', of exact_target] w obtain PS' where
    d: "detect_beat exact_target (tracked exact_target ?W 100)
         = Inr (Next (tracked exact_target ?W 100))"
    and "pulse_sensor_process_sample exact_target ?W 100 = Inr PS'"
    and "\<not> pulse PS'" "IBI PS' = 500" "last_beat_time PS' = 500"
    by auto
  then have "\<not> pulse (projr (pulse_sensor_process_sample exact_target ?W 100))"
    "IBI (projr (pulse_sensor_process_sample exact_target ?W 100)) = 500"
    "last_beat_time (projr (pulse_sensor_process_sample exact_target ?W 100)) = 500"
    by simp_all
  with h d show ?thesis by blast
qed

text \<open>
  C5. In a reachable state that awaits its first beat, the call that detects a qualifying
  edge returns early: \<open>BPM\<close> and the history are unchanged, \<open>start_of_beat\<close> is
  clear, and the detector now awaits the second beat.
\<close>

theorem warm_up_discard:
  assumes "reachable tgt PS" and "first_beat PS"
    and "250 < N (advance_clock PS ms)" and "beat_edge tgt (tracked tgt PS ms)"
  shows "\<exists>PS'. pulse_sensor_process_sample tgt PS ms = Inr PS'
          \<and> BPM PS' = BPM PS \<and> rate PS' = rate PS \<and> \<not> start_of_beat PS'
          \<and> \<not> first_beat PS' \<and> second_beat PS' \<and> pulse PS'
          \<and> IBI PS' = ucast (N (advance_clock PS ms))
          \<and> last_beat_time PS' = sample_counter PS'"
proof -
  let ?T = "tracked tgt PS ms"
  let ?P = "(register_beat ?T)\<lparr>first_beat := False, second_beat := True\<rparr>"
  from assms(1) have "invariant PS" by (rule reachable_invariant)
  with assms(2) have s: "\<not> second_beat PS" "\<not> start_of_beat PS"
    by (simp_all add: invariant_def)
  have "pulse_sensor_process_sample tgt PS ms = Inr ?P"
    using assms(2-4) by (simp add: sample_first_beat tracked_N)
  moreover have "BPM ?P = BPM PS" "rate ?P = rate PS" "\<not> start_of_beat ?P"
    "\<not> first_beat ?P" "second_beat ?P" "pulse ?P"
    "IBI ?P = ucast (N (advance_clock PS ms))" "last_beat_time ?P = sample_counter ?P"
    using s
    by (simp_all add: register_beat_fields register_beat_rate tracked_fields
        advance_clock_fields)
  ultimately show ?thesis by blast
qed

theorem warm_up_discard_witness:
  "reachable exact_target ((heart_rate_init exact_target blank)\<lparr>signal := 1\<rparr>)
   \<and> first_beat ((heart_rate_init exact_target blank)\<lparr>signal := 1\<rparr>)
   \<and> 250 < N (advance_clock ((heart_rate_init exact_target blank)\<lparr>signal := 1\<rparr>) 500)
   \<and> beat_edge exact_target
        (tracked exact_target ((heart_rate_init exact_target blank)\<lparr>signal := 1\<rparr>) 500)
   \<and> \<not> start_of_beat (projr (pulse_sensor_process_sample exact_target
          ((heart_rate_init exact_target blank)\<lparr>signal := 1\<rparr>) 500))
   \<and> second_beat (projr (pulse_sensor_process_sample exact_target
          ((heart_rate_init exact_target blank)\<lparr>signal := 1\<rparr>) 500))"
proof -
  let ?W = "(heart_rate_init exact_target blank)\<lparr>signal := 1\<rparr>"
  have h1: "reachable exact_target ?W" by (rule r_signal [OF r_init])
  have h2: "first_beat ?W" by code_simp
  have h3: "250 < N (advance_clock ?W 500)" by code_simp
  have h4: "beat_edge exact_target (tracked exact_target ?W 500)" by code_simp
  from warm_up_discard [OF h1 h2 h3 h4] obtain PS' where
    "pulse_sensor_process_sample exact_target ?W 500 = Inr PS'"
    "\<not> start_of_beat PS'" "second_beat PS'"
    by blast
  then have "\<not> start_of_beat (projr (pulse_sensor_process_sample exact_target ?W 500))"
    "second_beat (projr (pulse_sensor_process_sample exact_target ?W 500))"
    by simp_all
  with h1 h2 h3 h4 show ?thesis by blast
qed




section \<open>The beats-per-minute computation\<close>

text \<open>
  C3, as amended. When a qualifying edge is detected outside the first-beat phase, the
  history \<open>H\<close> after the shift has the old entries 1 to 9 in places 0 to 8 and the new
  interval in place 9, and the divisor is \<open>d = (sum(H) mod 2^32) div 10\<close>. If \<open>d\<close> is 0
  the call faults; otherwise it stores \<open>(60000 div d) mod 256\<close> in \<open>BPM\<close>. That is
  the specification's \<open>60000 div (sum(H) div 10)\<close> whenever \<open>sum(H) < 2^32\<close> and
  \<open>sum(H) div 10 \<ge> 235\<close>, and in particular after every such call on a reachable state
  whose time since the last beat is at most 2500 ms.
\<close>

theorem bpm_computation:
  assumes n: "250 < N (advance_clock PS ms)" and e: "beat_edge tgt (tracked tgt PS ms)"
    and nf: "\<not> first_beat PS"
  shows "let E = register_beat (tracked tgt PS ms);
             H = fst (shift_rate E);
             S = sum_list (map (\<lambda>i. unat (H i)) [0..<10]);
             d = (S mod 2 ^ 32) div 10
         in (\<forall>i<9. H i = rate E (Suc i)) \<and> H 9 = IBI E
            \<and> unat (snd (shift_rate E)) = d
            \<and> (if d = 0 then pulse_sensor_process_sample tgt PS ms = Inl DivisionByZero
                else (\<exists>PS3. update_bpm E = Inr PS3
                       \<and> pulse_sensor_process_sample tgt PS ms
                           = Inr (check_timeout tgt (end_of_beat tgt PS3))
                       \<and> rate PS3 = H
                       \<and> unat (BPM PS3) = (60000 div d) mod 256
                       \<and> (S < 2 ^ 32 \<and> 235 \<le> S div 10
                            \<longrightarrow> unat (BPM PS3) = spec_bpm (\<lambda>i. unat (H i)))))
            \<and> (reachable tgt PS \<and> N (advance_clock PS ms) \<le> 2500 \<longrightarrow>
                 (\<exists>PS'. pulse_sensor_process_sample tgt PS ms = Inr PS' \<and> rate PS' = H
                        \<and> unat (BPM PS') = spec_bpm (\<lambda>i. unat (rate PS' i))))"
proof -
  define E where "E = register_beat (tracked tgt PS ms)"
  define H where "H = fst (shift_rate E)"
  define S where "S = sum_list (map (\<lambda>i. unat (H i)) [0..<10])"
  define d where "d = (S mod 2 ^ 32) div 10"
  have nT: "250 < N (tracked tgt PS ms)" using n by (simp add: tracked_N)
  have H: "H = shifted E" by (simp add: H_def shift_rate_eq)
  have c1: "(\<forall>i<9. H i = rate E (Suc i)) \<and> H 9 = IBI E"
    by (simp add: H shifted_def)
  have rt: "snd (shift_rate E) = sum_list (map H [0..<10]) div 10"
    by (simp add: H shift_rate_eq)
  have "unat (sum_list (map H [0..<10])) = S mod 2 ^ 32"
    by (simp only: unat_sum_list map_map o_def S_def)
  then have c2: "unat (snd (shift_rate E)) = d"
    by (simp add: rt unat_div d_def)
  have s: "pulse_sensor_process_sample tgt PS ms =
           (case update_bpm E of Inl e \<Rightarrow> Inl e
            | Inr PS3 \<Rightarrow> Inr (check_timeout tgt (end_of_beat tgt PS3)))"
    unfolding E_def using nT e nf by (rule sample_update)
  have c3: "pulse_sensor_process_sample tgt PS ms = Inl DivisionByZero" if "d = 0"
  proof -
    from that c2 have "snd (shift_rate E) = 0" by (simp add: unat_eq_0)
    then have "update_bpm E = Inl DivisionByZero"
      by (simp add: update_bpm_def split_def Let_def)
    with s show ?thesis by simp
  qed
  have c4: "\<exists>PS3. update_bpm E = Inr PS3
       \<and> pulse_sensor_process_sample tgt PS ms = Inr (check_timeout tgt (end_of_beat tgt PS3))
       \<and> rate PS3 = H
       \<and> unat (BPM PS3) = (60000 div d) mod 256
       \<and> (S < 2 ^ 32 \<and> 235 \<le> S div 10 \<longrightarrow> unat (BPM PS3) = spec_bpm (\<lambda>i. unat (H i)))"
    if "d \<noteq> 0"
  proof -
    from that c2 have "snd (shift_rate E) \<noteq> 0" by auto
    then obtain PS3 where up: "update_bpm E = Inr PS3"
      using update_bpm_returns by blast
    note f3 = update_bpm_fields [OF up]
    have b: "unat (BPM PS3) = (60000 div d) mod 256"
      by (simp add: f3(2) unat_bpm_cast c2)
    have "unat (BPM PS3) = spec_bpm (\<lambda>i. unat (H i))" if "S < 2 ^ 32" "235 \<le> S div 10"
    proof -
      from that(1) have "d = S div 10" by (simp add: d_def)
      moreover from that(2) have "60000 div (S div 10) < 256" by (rule bpm_fits)
      ultimately show ?thesis by (simp add: b spec_bpm_def S_def)
    qed
    with up s b f3(1) H show ?thesis by auto
  qed
  have c5: "\<exists>PS'. pulse_sensor_process_sample tgt PS ms = Inr PS' \<and> rate PS' = H
                        \<and> unat (BPM PS') = spec_bpm (\<lambda>i. unat (rate PS' i))"
    if r: "reachable tgt PS" and fresh: "N (advance_clock PS ms) \<le> 2500"
  proof -
    from r have inv: "invariant PS" by (rule reachable_invariant)
    have le: "unat (N (tracked tgt PS ms)) \<le> 2500"
      using fresh by (simp add: word_le_nat_alt tracked_N)
    have bnd: "\<forall>i<10. 251 \<le> unat (H i) \<and> unat (H i) \<le> 2500"
      unfolding H E_def using inv nf nT le by (rule shifted_register_bounds) simp_all
    have "length [0..<10::nat] * 251 \<le> S \<and> S \<le> length [0..<10::nat] * 2500"
      unfolding S_def by (rule sum_list_bounds) (use bnd in auto)
    then have S: "2510 \<le> S" "S \<le> 25000" by simp_all
    then have dS: "d = S div 10" "S < 2 ^ 32" "235 \<le> S div 10" by (simp_all add: d_def)
    then have "d \<noteq> 0" by simp
    from c4 [OF this] dS obtain PS3 where up: "update_bpm E = Inr PS3"
      and p: "pulse_sensor_process_sample tgt PS ms = Inr (check_timeout tgt (end_of_beat tgt PS3))"
      and f: "rate PS3 = H" "unat (BPM PS3) = spec_bpm (\<lambda>i. unat (H i))"
      by blast
    note f3 = update_bpm_fields [OF up]
    have "\<not> 2500 < N (end_of_beat tgt PS3)"
      using fresh by (simp add: end_of_beat_fields f3 E_def register_beat_fields tracked_N not_less)
    then have "check_timeout tgt (end_of_beat tgt PS3) = end_of_beat tgt PS3"
      by (rule check_timeout_fresh)
    with p f show ?thesis by (simp add: end_of_beat_fields)
  qed
  from c1 c2 c3 c4 c5 show ?thesis
    unfolding Let_def E_def [symmetric] H_def [symmetric] S_def [symmetric] d_def [symmetric]
    by auto
qed

theorem bpm_computation_witness:
  "250 < N (advance_clock (settled\<lparr>signal := 1\<rparr>) 830)
   \<and> beat_edge exact_target (tracked exact_target (settled\<lparr>signal := 1\<rparr>) 830)
   \<and> \<not> first_beat (settled\<lparr>signal := 1\<rparr>)
   \<and> reachable exact_target (settled\<lparr>signal := 1\<rparr>)
   \<and> N (advance_clock (settled\<lparr>signal := 1\<rparr>) 830) \<le> 2500
   \<and> unat (BPM (projr (pulse_sensor_process_sample exact_target (settled\<lparr>signal := 1\<rparr>) 830)))
       = spec_bpm (\<lambda>i. unat (rate (projr
           (pulse_sensor_process_sample exact_target (settled\<lparr>signal := 1\<rparr>) 830)) i))
   \<and> BPM (projr (pulse_sensor_process_sample exact_target (settled\<lparr>signal := 1\<rparr>) 830)) = 74"
proof -
  let ?W = "settled\<lparr>signal := 1\<rparr>"
  let ?R = "pulse_sensor_process_sample exact_target ?W 830"
  have h1: "250 < N (advance_clock ?W 830)" by code_simp
  have h2: "beat_edge exact_target (tracked exact_target ?W 830)" by code_simp
  have h3: "\<not> first_beat ?W" by code_simp
  have h4: "reachable exact_target ?W" by (rule r_signal [OF settled_reachable])
  have h5: "N (advance_clock ?W 830) \<le> 2500" by code_simp
  have v: "BPM (projr ?R) = 74" by code_simp
  from bpm_computation [OF h1 h2 h3] h4 h5
  obtain PS' where "?R = Inr PS'" "unat (BPM PS') = spec_bpm (\<lambda>i. unat (rate PS' i))"
    unfolding Let_def by blast
  then have "unat (BPM (projr ?R)) = spec_bpm (\<lambda>i. unat (rate (projr ?R) i))"
    by simp
  with h1 h2 h3 h4 h5 v show ?thesis by blast
qed

text \<open>
  C3 as stated fails where the 32-bit sum wraps. In the reachable steady-phase state
  \<open>settled\<close> the history holds 800 in every entry; a sample above the threshold with
  \<open>ms = 4294967275\<close> is a qualifying edge with the interval 4294967295. The history
  after the shift sums to 4294974495, so the formula gives 60000 div 429497449 = 0, while
  line 191 divides 60000 by (7199 div 10) and stores 83. (The timeout block of the same
  call clears \<open>BPM\<close> afterwards.)
\<close>

theorem bpm_sum_wraps:
  "reachable exact_target (settled\<lparr>signal := 1\<rparr>)
   \<and> \<not> first_beat (settled\<lparr>signal := 1\<rparr>) \<and> \<not> second_beat (settled\<lparr>signal := 1\<rparr>)
   \<and> 250 < N (advance_clock (settled\<lparr>signal := 1\<rparr>) 4294967275)
   \<and> beat_edge exact_target (tracked exact_target (settled\<lparr>signal := 1\<rparr>) 4294967275)
   \<and> \<not> isl (update_bpm (register_beat
               (tracked exact_target (settled\<lparr>signal := 1\<rparr>) 4294967275)))
   \<and> map (rate (projr (update_bpm (register_beat
               (tracked exact_target (settled\<lparr>signal := 1\<rparr>) 4294967275))))) [0..<10]
       = [800, 800, 800, 800, 800, 800, 800, 800, 800, 4294967295]
   \<and> unat (BPM (projr (update_bpm (register_beat
               (tracked exact_target (settled\<lparr>signal := 1\<rparr>) 4294967275))))) = 83
   \<and> spec_bpm (\<lambda>i. unat (rate (projr (update_bpm (register_beat
               (tracked exact_target (settled\<lparr>signal := 1\<rparr>) 4294967275)))) i)) = 0"
proof -
  let ?W = "settled\<lparr>signal := 1\<rparr>"
  let ?P = "projr (update_bpm (register_beat (tracked exact_target ?W 4294967275)))"
  have r: "reachable exact_target ?W" by (rule r_signal [OF settled_reachable])
  have a: "\<not> first_beat ?W \<and> \<not> second_beat ?W
     \<and> 250 < N (advance_clock ?W 4294967275)
     \<and> beat_edge exact_target (tracked exact_target ?W 4294967275)
     \<and> \<not> isl (update_bpm (register_beat (tracked exact_target ?W 4294967275)))"
    by code_simp
  have "BPM ?P = 83" by code_simp
  then have b: "unat (BPM ?P) = 83" by simp
  have m: "map (rate ?P) [0..<10]
      = [800, 800, 800, 800, 800, 800, 800, 800, 800, 4294967295]"
    by code_simp
  then have "map unat (map (rate ?P) [0..<10])
      = map unat [800, 800, 800, 800, 800, 800, 800, 800, 800, 4294967295 :: 32 word]"
    by (simp only:)
  then have "map (\<lambda>i. unat (rate ?P i)) [0..<10]
      = [800, 800, 800, 800, 800, 800, 800, 800, 800, 4294967295]"
    by (simp only: map_map o_def) simp
  then have "spec_bpm (\<lambda>i. unat (rate ?P i)) = 0"
    by (simp only: spec_bpm_def) simp
  with r a b m show ?thesis by blast
qed

text \<open>
  C2. The divisor \<open>running_total\<close> is meant never to be zero. It is the 32-bit sum of
  the ten history entries divided by 10, and the sum wraps: in the reachable state
  \<open>one_beat\<close> (one beat seen 20 ms ago), a sample above the threshold with
  \<open>ms = 2147483628\<close> is the second edge with the interval \<open>2^31\<close>, the history is
  seeded with it, ten times \<open>2^31\<close> is 0 modulo \<open>2^32\<close>, the divisor is 0 and the call
  faults. With \<open>ms = 4294967276\<close> (minus 20 ms read as \<open>uint32_t\<close>) the interval is
  \<open>2^32\<close>, stored as 0, and the call faults the same way.
\<close>

theorem division_by_zero_reachable:
  "reachable exact_target (one_beat\<lparr>signal := 1\<rparr>)
   \<and> \<not> first_beat (one_beat\<lparr>signal := 1\<rparr>)
   \<and> 250 < N (advance_clock (one_beat\<lparr>signal := 1\<rparr>) 2147483628)
   \<and> beat_edge exact_target (tracked exact_target (one_beat\<lparr>signal := 1\<rparr>) 2147483628)
   \<and> snd (shift_rate (register_beat
            (tracked exact_target (one_beat\<lparr>signal := 1\<rparr>) 2147483628))) = 0
   \<and> pulse_sensor_process_sample exact_target (one_beat\<lparr>signal := 1\<rparr>) 2147483628
       = Inl DivisionByZero
   \<and> 250 < N (advance_clock (one_beat\<lparr>signal := 1\<rparr>) 4294967276)
   \<and> beat_edge exact_target (tracked exact_target (one_beat\<lparr>signal := 1\<rparr>) 4294967276)
   \<and> snd (shift_rate (register_beat
            (tracked exact_target (one_beat\<lparr>signal := 1\<rparr>) 4294967276))) = 0
   \<and> pulse_sensor_process_sample exact_target (one_beat\<lparr>signal := 1\<rparr>) 4294967276
       = Inl DivisionByZero"
proof -
  let ?W = "one_beat\<lparr>signal := 1\<rparr>"
  have "reachable exact_target ?W" by (rule r_signal [OF one_beat_reachable])
  moreover have "\<not> first_beat ?W
    \<and> 250 < N (advance_clock ?W 2147483628)
    \<and> beat_edge exact_target (tracked exact_target ?W 2147483628)
    \<and> snd (shift_rate (register_beat (tracked exact_target ?W 2147483628))) = 0
    \<and> 250 < N (advance_clock ?W 4294967276)
    \<and> beat_edge exact_target (tracked exact_target ?W 4294967276)
    \<and> snd (shift_rate (register_beat (tracked exact_target ?W 4294967276))) = 0"
    by code_simp
  moreover have "isl (pulse_sensor_process_sample exact_target ?W 2147483628)"
    by code_simp
  then have "pulse_sensor_process_sample exact_target ?W 2147483628 = Inl DivisionByZero"
    by (rule isl_error)
  moreover have "isl (pulse_sensor_process_sample exact_target ?W 4294967276)"
    by code_simp
  then have "pulse_sensor_process_sample exact_target ?W 4294967276 = Inl DivisionByZero"
    by (rule isl_error)
  ultimately show ?thesis by blast
qed

text \<open>
  Where the division is safe: from every reachable state, a call whose time since the
  last beat is at most 429496729 ms returns, and when it reaches the beats-per-minute
  computation the divisor is at least 251.
\<close>

theorem divisor_nonzero:
  assumes "reachable tgt PS" and "N (advance_clock PS ms) \<le> 429496729"
  shows "(\<exists>PS'. pulse_sensor_process_sample tgt PS ms = Inr PS')
     \<and> (250 < N (advance_clock PS ms) \<and> beat_edge tgt (tracked tgt PS ms) \<and> \<not> first_beat PS
          \<longrightarrow> 251 \<le> unat (snd (shift_rate (register_beat (tracked tgt PS ms)))))"
proof -
  let ?T = "tracked tgt PS ms"
  let ?R = "register_beat ?T"
  from assms(1) have inv: "invariant PS" by (rule reachable_invariant)
  have le: "unat (N ?T) \<le> 429496729"
    using assms(2) by (simp add: word_le_nat_alt tracked_N)
  have big: "251 \<le> unat (snd (shift_rate ?R))"
    if "250 < N ?T" "\<not> first_beat PS"
  proof -
    have "\<forall>i<10. 251 \<le> unat (shifted ?R i) \<and> unat (shifted ?R i) \<le> 429496729"
      using inv that(2) that(1) le by (rule shifted_register_bounds) simp_all
    from running_total_bounds(1) [OF this] show ?thesis
      by (simp add: shift_rate_eq)
  qed
  have "\<exists>PS'. pulse_sensor_process_sample tgt PS ms = Inr PS'"
  proof (cases "250 < N ?T \<and> beat_edge tgt ?T")
    case False
    then show ?thesis by (simp add: sample_quiet)
  next
    case True
    show ?thesis
    proof (cases "first_beat PS")
      case True
      with \<open>250 < N ?T \<and> beat_edge tgt ?T\<close> show ?thesis by (simp add: sample_first_beat)
    next
      case False
      with True big have "snd (shift_rate ?R) \<noteq> 0" by fastforce
      then obtain PS3 where "update_bpm ?R = Inr PS3"
        using update_bpm_returns by blast
      with True False show ?thesis by (simp add: sample_update)
    qed
  qed
  with big show ?thesis by (simp add: tracked_N)
qed

theorem divisor_nonzero_witness:
  "reachable exact_target (one_beat\<lparr>signal := 1\<rparr>)
   \<and> N (advance_clock (one_beat\<lparr>signal := 1\<rparr>) 780) \<le> 429496729
   \<and> \<not> isl (pulse_sensor_process_sample exact_target (one_beat\<lparr>signal := 1\<rparr>) 780)
   \<and> 251 \<le> unat (snd (shift_rate (register_beat
                  (tracked exact_target (one_beat\<lparr>signal := 1\<rparr>) 780))))"
proof -
  let ?W = "one_beat\<lparr>signal := 1\<rparr>"
  have h1: "reachable exact_target ?W" by (rule r_signal [OF one_beat_reachable])
  have h2: "N (advance_clock ?W 780) \<le> 429496729" by code_simp
  have e: "250 < N (advance_clock ?W 780)" "beat_edge exact_target (tracked exact_target ?W 780)"
    "\<not> first_beat ?W"
    by code_simp+
  from divisor_nonzero [OF h1 h2] e
  have "\<exists>PS'. pulse_sensor_process_sample exact_target ?W 780 = Inr PS'"
    and b: "251 \<le> unat (snd (shift_rate (register_beat (tracked exact_target ?W 780))))"
    by blast+
  then have "\<not> isl (pulse_sensor_process_sample exact_target ?W 780)" by auto
  with h1 h2 b show ?thesis by blast
qed

section \<open>The stale-signal timeout\<close>




end
